theory Spec2Isabelle
  imports Complex_Main
begin

section \<open>JavaScript numbers\<close>

text \<open>
  The component keeps its bounds and results in JavaScript numbers. A number is
  \<open>NaN\<close>, one of the two infinities, or a finite value. Finite values are
  carried as exact reals: the rounding of binary64 is left out, and the two
  zeros are one value (the component never divides and never inspects the sign
  of a zero).
\<close>

datatype jsnum = NaN | NegInf | Fin real | PosInf

text \<open>The binary \<open>*\<close> operator on numbers.\<close>

fun js_mul :: "jsnum \<Rightarrow> jsnum \<Rightarrow> jsnum" where
  "js_mul NaN _ = NaN"
| "js_mul _ NaN = NaN"
| "js_mul (Fin a) (Fin b) = Fin (a * b)"
| "js_mul (Fin a) PosInf = (if a = 0 then NaN else if 0 < a then PosInf else NegInf)"
| "js_mul (Fin a) NegInf = (if a = 0 then NaN else if 0 < a then NegInf else PosInf)"
| "js_mul PosInf (Fin b) = (if b = 0 then NaN else if 0 < b then PosInf else NegInf)"
| "js_mul NegInf (Fin b) = (if b = 0 then NaN else if 0 < b then NegInf else PosInf)"
| "js_mul PosInf PosInf = PosInf"
| "js_mul NegInf NegInf = PosInf"
| "js_mul PosInf NegInf = NegInf"
| "js_mul NegInf PosInf = NegInf"

text \<open>The binary \<open>+\<close> operator on numbers.\<close>

fun js_add :: "jsnum \<Rightarrow> jsnum \<Rightarrow> jsnum" where
  "js_add NaN _ = NaN"
| "js_add _ NaN = NaN"
| "js_add (Fin a) (Fin b) = Fin (a + b)"
| "js_add PosInf NegInf = NaN"
| "js_add NegInf PosInf = NaN"
| "js_add PosInf _ = PosInf"
| "js_add _ PosInf = PosInf"
| "js_add NegInf _ = NegInf"
| "js_add _ NegInf = NegInf"

text \<open>\<open>Math.floor\<close>.\<close>

fun math_floor :: "jsnum \<Rightarrow> jsnum" where
  "math_floor (Fin a) = Fin (of_int \<lfloor>a\<rfloor>)"
| "math_floor x = x"

text \<open>\<open>Math.max\<close> of two arguments: \<open>NaN\<close> as soon as one argument is \<open>NaN\<close>.\<close>

fun math_max :: "jsnum \<Rightarrow> jsnum \<Rightarrow> jsnum" where
  "math_max NaN _ = NaN"
| "math_max _ NaN = NaN"
| "math_max PosInf _ = PosInf"
| "math_max _ PosInf = PosInf"
| "math_max NegInf y = y"
| "math_max x NegInf = x"
| "math_max (Fin a) (Fin b) = Fin (max a b)"

text \<open>The comparison \<open><=\<close> on numbers: false as soon as one side is \<open>NaN\<close>.\<close>

fun js_le :: "jsnum \<Rightarrow> jsnum \<Rightarrow> bool" where
  "js_le NaN _ = False"
| "js_le _ NaN = False"
| "js_le NegInf _ = True"
| "js_le _ PosInf = True"
| "js_le (Fin a) (Fin b) = (a \<le> b)"
| "js_le _ _ = False"

text \<open>A number that is a finite integer.\<close>

fun is_integer :: "jsnum \<Rightarrow> bool" where
  "is_integer (Fin a) = (of_int \<lfloor>a\<rfloor> = a)"
| "is_integer _ = False"

text \<open>Membership of a value in the inclusive range from 1 to a bound.\<close>

definition in_range :: "jsnum \<Rightarrow> jsnum \<Rightarrow> bool" where
  "in_range v mx = (js_le (Fin 1) v \<and> js_le v mx)"

section \<open>Coercion of a string to a number\<close>

text \<open>
  The unary \<open>+\<close> applied to \<open>e.target.value\<close> is the language's conversion of a
  string to a number: surrounding white space is dropped, the empty string is
  0, a signed decimal literal (with optional fraction and exponent) or
  \<open>Infinity\<close> is its value, an unsigned binary, octal or hexadecimal literal is
  its value, and every other string is \<open>NaN\<close>. A value too large for a finite
  number is an infinity. Strings are UTF-8 byte strings: a white space
  character or line terminator of the language is one to three bytes.
\<close>

definition ws_chars :: "string list" where
  "ws_chars =
    [[CHR 0x09], [CHR 0x0A], [CHR 0x0B], [CHR 0x0C], [CHR 0x0D], [CHR 0x20],
     [CHR 0xC2, CHR 0xA0], [CHR 0xE1, CHR 0x9A, CHR 0x80],
     [CHR 0xE2, CHR 0x80, CHR 0x80], [CHR 0xE2, CHR 0x80, CHR 0x81],
     [CHR 0xE2, CHR 0x80, CHR 0x82], [CHR 0xE2, CHR 0x80, CHR 0x83],
     [CHR 0xE2, CHR 0x80, CHR 0x84], [CHR 0xE2, CHR 0x80, CHR 0x85],
     [CHR 0xE2, CHR 0x80, CHR 0x86], [CHR 0xE2, CHR 0x80, CHR 0x87],
     [CHR 0xE2, CHR 0x80, CHR 0x88], [CHR 0xE2, CHR 0x80, CHR 0x89],
     [CHR 0xE2, CHR 0x80, CHR 0x8A], [CHR 0xE2, CHR 0x80, CHR 0xA8],
     [CHR 0xE2, CHR 0x80, CHR 0xA9], [CHR 0xE2, CHR 0x80, CHR 0xAF],
     [CHR 0xE2, CHR 0x81, CHR 0x9F], [CHR 0xE3, CHR 0x80, CHR 0x80],
     [CHR 0xEF, CHR 0xBB, CHR 0xBF]]"

text \<open>The rest of a string after the first of the given words that it starts with.\<close>

fun after_one_of :: "string list \<Rightarrow> string \<Rightarrow> string option" where
  "after_one_of [] s = None"
| "after_one_of (w # ws) s =
     (if take (length w) s = w then Some (drop (length w) s) else after_one_of ws s)"

text \<open>
  Leading white space is dropped one character at a time; the count bounds the
  number of rounds by the length of the string.
\<close>

fun drop_leading :: "string list \<Rightarrow> nat \<Rightarrow> string \<Rightarrow> string" where
  "drop_leading ws 0 s = s"
| "drop_leading ws (Suc n) s =
     (case after_one_of ws s of None \<Rightarrow> s | Some t \<Rightarrow> drop_leading ws n t)"

definition trim :: "string \<Rightarrow> string" where
  "trim s =
    (let t = drop_leading ws_chars (length s) s in
     rev (drop_leading (map rev ws_chars) (length t) (rev t)))"

text \<open>The value of a digit: its place among the digits, in either case.\<close>

fun position :: "char \<Rightarrow> string \<Rightarrow> nat option" where
  "position c [] = None"
| "position c (d # ds) = (if c = d then Some 0 else map_option Suc (position c ds))"

definition digit_of :: "char \<Rightarrow> nat option" where
  "digit_of c =
    (case position c ''0123456789abcdef'' of
       Some d \<Rightarrow> Some d
     | None \<Rightarrow> position c ''0123456789ABCDEF'')"

definition is_digit :: "nat \<Rightarrow> char \<Rightarrow> bool" where
  "is_digit base c = (case digit_of c of None \<Rightarrow> False | Some d \<Rightarrow> d < base)"

definition digits_val :: "nat \<Rightarrow> string \<Rightarrow> nat" where
  "digits_val base s =
     foldl (\<lambda>a c. a * base + (case digit_of c of None \<Rightarrow> 0 | Some d \<Rightarrow> d)) 0 s"

text \<open>A non-empty string of digits of the base, as its value.\<close>

definition parse_digits :: "nat \<Rightarrow> string \<Rightarrow> nat option" where
  "parse_digits base s =
     (if s \<noteq> [] \<and> list_all (is_digit base) s then Some (digits_val base s) else None)"

text \<open>The exponent part: absent, or \<open>e\<close>/\<open>E\<close> and a signed integer.\<close>

definition parse_exponent :: "string \<Rightarrow> int option" where
  "parse_exponent s =
    (case s of
       [] \<Rightarrow> Some 0
     | c # r \<Rightarrow>
         if c = CHR ''e'' \<or> c = CHR ''E'' then
           (case r of
              [] \<Rightarrow> None
            | d # ds \<Rightarrow>
                if d = CHR ''+'' then map_option int (parse_digits 10 ds)
                else if d = CHR ''-'' then map_option (\<lambda>n. - int n) (parse_digits 10 ds)
                else map_option int (parse_digits 10 r))
         else None)"

definition pow10 :: "int \<Rightarrow> real" where
  "pow10 e = (if 0 \<le> e then 10 ^ nat e else 1 / 10 ^ nat (- e))"

text \<open>An unsigned decimal literal other than \<open>Infinity\<close>.\<close>

definition parse_unsigned_decimal :: "string \<Rightarrow> real option" where
  "parse_unsigned_decimal s =
    (let ip = takeWhile (is_digit 10) s; rest = dropWhile (is_digit 10) s in
     case rest of
       [] \<Rightarrow> if ip = [] then None else Some (real (digits_val 10 ip))
     | c # r \<Rightarrow>
         if c = CHR ''.'' then
           (let fp = takeWhile (is_digit 10) r; rest2 = dropWhile (is_digit 10) r in
            if ip = [] \<and> fp = [] then None
            else
              (case parse_exponent rest2 of
                 None \<Rightarrow> None
               | Some e \<Rightarrow>
                   Some ((real (digits_val 10 ip)
                          + real (digits_val 10 fp) / 10 ^ length fp) * pow10 e)))
         else if ip = [] then None
         else
           (case parse_exponent rest of
              None \<Rightarrow> None
            | Some e \<Rightarrow> Some (real (digits_val 10 ip) * pow10 e)))"

definition parse_unsigned :: "string \<Rightarrow> jsnum" where
  "parse_unsigned s =
    (if s = ''Infinity'' then PosInf
     else case parse_unsigned_decimal s of None \<Rightarrow> NaN | Some x \<Rightarrow> Fin x)"

definition js_neg :: "jsnum \<Rightarrow> jsnum" where
  "js_neg x = (case x of NaN \<Rightarrow> NaN | NegInf \<Rightarrow> PosInf | PosInf \<Rightarrow> NegInf | Fin a \<Rightarrow> Fin (- a))"

text \<open>An unsigned literal with a radix prefix.\<close>

definition parse_non_decimal :: "string \<Rightarrow> jsnum option" where
  "parse_non_decimal s =
    (case s of
       a # b # r \<Rightarrow>
         if a = CHR ''0'' \<and> (b = CHR ''x'' \<or> b = CHR ''X'') then
           Some (case parse_digits 16 r of None \<Rightarrow> NaN | Some n \<Rightarrow> Fin (real n))
         else if a = CHR ''0'' \<and> (b = CHR ''o'' \<or> b = CHR ''O'') then
           Some (case parse_digits 8 r of None \<Rightarrow> NaN | Some n \<Rightarrow> Fin (real n))
         else if a = CHR ''0'' \<and> (b = CHR ''b'' \<or> b = CHR ''B'') then
           Some (case parse_digits 2 r of None \<Rightarrow> NaN | Some n \<Rightarrow> Fin (real n))
         else None
     | _ \<Rightarrow> None)"

text \<open>
  The largest finite number is \<open>2^1024 - 2^971\<close>; a value of a literal at or
  beyond \<open>2^1024 - 2^970\<close> is rounded to an infinity.
\<close>

definition overflow :: "jsnum \<Rightarrow> jsnum" where
  "overflow x =
    (case x of
       Fin a \<Rightarrow>
         if 2 ^ 1024 - 2 ^ 970 \<le> a then PosInf
         else if a \<le> - (2 ^ 1024 - 2 ^ 970) then NegInf
         else Fin a
     | _ \<Rightarrow> x)"

definition to_number :: "string \<Rightarrow> jsnum" where
  "to_number str =
    (let s = trim str in
     case s of
       [] \<Rightarrow> Fin 0
     | c # r \<Rightarrow>
         overflow
           (case parse_non_decimal s of
              Some v \<Rightarrow> v
            | None \<Rightarrow>
                if c = CHR ''+'' then parse_unsigned r
                else if c = CHR ''-'' then js_neg (parse_unsigned r)
                else parse_unsigned s))"

section \<open>The component's state\<close>

text \<open>
  The five \<open>useState\<close> cells of \<open>LotteryDrawPage\<close>, and the part of the
  environment its handlers act on: the interval timers that are running (an
  association list from the identifier returned by \<open>setInterval\<close> to the
  closure of the callback), the next free identifier, the number of calls of
  \<open>confetti\<close>, and the identifiers passed to \<open>clearInterval\<close>, in order.

  A result is \<open>null\<close> (\<open>None\<close>) or a number. The closure of a callback holds
  what the arrow function reads from the enclosing call of \<open>roll\<close>: the
  argument \<open>type\<close>, the \<open>tableMax\<close> and \<open>seatMax\<close> of the render in which
  \<open>roll\<close> was created, and the local counter \<open>flashes\<close>.

  A render is one call of the component function. The handlers it creates
  close over its constants \<open>rolling\<close>, \<open>tableMax\<close> and \<open>seatMax\<close>: a setter
  changes the cell, never the constant, and only the next render reads the cell
  again. The state holds the render whose handlers are attached (\<open>view\<close>).
\<close>

record closure =
  ctype :: string
  c_tableMax :: jsnum
  c_seatMax :: jsnum
  flashes :: int

record render =
  r_tableMax :: jsnum
  r_seatMax :: jsnum
  r_rolling :: bool

record state =
  tableMax :: jsnum
  seatMax :: jsnum
  table :: "jsnum option"
  seat :: "jsnum option"
  rolling :: bool
  view :: render
  timers :: "(nat \<times> closure) list"
  next_id :: nat
  confetti :: nat
  cleared :: "nat list"

definition FLASH_COUNT :: int where
  "FLASH_COUNT = 50"

text \<open>The state on mount, after the first render.\<close>

definition init :: state where
  "init = \<lparr>tableMax = Fin 30, seatMax = Fin 10, table = None, seat = None,
     rolling = False,
     view = \<lparr>r_tableMax = Fin 30, r_seatMax = Fin 10, r_rolling = False\<rparr>,
     timers = [], next_id = 0, confetti = 0, cleared = []\<rparr>"

text \<open>A render reads the cells; its handlers replace those attached before.\<close>

definition render_of :: "state \<Rightarrow> render" where
  "render_of st =
     \<lparr>r_tableMax = tableMax st, r_seatMax = seatMax st, r_rolling = rolling st\<rparr>"

definition rerender :: "state \<Rightarrow> state" where
  "rerender st = st\<lparr>view := render_of st\<rparr>"

section \<open>The handlers\<close>

text \<open>
  \<open>roll\<close>, as created by the render \<open>rd\<close>: return at once when the \<open>rolling\<close>
  of that render is set; otherwise set the cell \<open>rolling\<close> and start an
  interval timer whose callback closes over \<open>type\<close>, the two bounds of that
  render and a counter \<open>flashes\<close> that starts at \<open>FLASH_COUNT\<close>.
\<close>

definition roll :: "render \<Rightarrow> string \<Rightarrow> state \<Rightarrow> state" where
  "roll rd type st =
    (if r_rolling rd then st
     else st\<lparr>rolling := True,
             timers := timers st @
               [(next_id st, \<lparr>ctype = type, c_tableMax = r_tableMax rd,
                   c_seatMax = r_seatMax rd, flashes = FLASH_COUNT\<rparr>)],
             next_id := next_id st + 1\<rparr>)"

text \<open>
  The value of one tick: \<open>Math.floor(Math.random() * max) + 1\<close>, where \<open>r\<close> is
  what \<open>Math.random()\<close> returned.
\<close>

definition draw_value :: "real \<Rightarrow> jsnum \<Rightarrow> jsnum" where
  "draw_value r mx = js_add (math_floor (js_mul (Fin r) mx)) (Fin 1)"

text \<open>\<open>clearInterval\<close>: the timer is removed and the call is recorded.\<close>

definition clearInterval :: "nat \<Rightarrow> state \<Rightarrow> state" where
  "clearInterval i st =
     st\<lparr>timers := filter (\<lambda>p. fst p \<noteq> i) (timers st), cleared := cleared st @ [i]\<rparr>"

text \<open>
  One run of the interval callback of timer \<open>i\<close>, with \<open>r\<close> the value of
  \<open>Math.random()\<close>. A timer that is not running has no callback to run.
\<close>

definition tick :: "nat \<Rightarrow> real \<Rightarrow> state \<Rightarrow> state" where
  "tick i r st =
    (case map_of (timers st) i of
       None \<Rightarrow> st
     | Some c \<Rightarrow>
         (let mx = (if ctype c = ''table'' then c_tableMax c else c_seatMax c);
              v = draw_value r mx;
              st1 = (if ctype c = ''table'' then st\<lparr>table := Some v\<rparr>
                     else st\<lparr>seat := Some v\<rparr>);
              fl = flashes c - 1;
              st2 = st1\<lparr>timers :=
                      map (\<lambda>p. if fst p = i then (i, (snd p)\<lparr>flashes := fl\<rparr>) else p)
                        (timers st1)\<rparr>
          in if fl \<le> 0 then
               (clearInterval i st2)\<lparr>rolling := False, confetti := confetti st2 + 1\<rparr>
             else st2))"

definition reset :: "state \<Rightarrow> state" where
  "reset st = st\<lparr>table := None, seat := None\<rparr>"

text \<open>The \<open>onChange\<close> handlers of the two bound inputs, on \<open>e.target.value\<close>.\<close>

definition onChange_tableMax :: "string \<Rightarrow> state \<Rightarrow> state" where
  "onChange_tableMax v st = st\<lparr>tableMax := math_max (Fin 1) (to_number v)\<rparr>"

definition onChange_seatMax :: "string \<Rightarrow> state \<Rightarrow> state" where
  "onChange_seatMax v st = st\<lparr>seatMax := math_max (Fin 1) (to_number v)\<rparr>"

section \<open>Events\<close>

text \<open>
  What can happen to a mounted component: a call of the \<open>roll\<close> of the
  attached render, a firing of timer \<open>i\<close> (with the value that
  \<open>Math.random()\<close> returns in it), a click on the reset button, a change of one
  of the two bound inputs, and a render. A trace may hold a render anywhere,
  or none: a handler that runs before React has rendered again is the handler
  of the older render.
\<close>

datatype event =
  Roll string
| Tick nat real
| Reset
| SetTableMax string
| SetSeatMax string
| Render

fun step :: "event \<Rightarrow> state \<Rightarrow> state" where
  "step (Roll type) st = roll (view st) type st"
| "step (Tick i r) st = tick i r st"
| "step Reset st = reset st"
| "step (SetTableMax v) st = onChange_tableMax v st"
| "step (SetSeatMax v) st = onChange_seatMax v st"
| "step Render st = rerender st"

fun run :: "event list \<Rightarrow> state \<Rightarrow> state" where
  "run [] st = st"
| "run (e # es) st = run es (step e st)"

text \<open>The firings of timer \<open>i\<close> in a trace.\<close>

fun is_tick_of :: "nat \<Rightarrow> event \<Rightarrow> bool" where
  "is_tick_of i (Tick j r) = (j = i)"
| "is_tick_of i _ = False"

definition count_ticks :: "nat \<Rightarrow> event list \<Rightarrow> nat" where
  "count_ticks i es = length (filter (is_tick_of i) es)"

fun is_roll :: "event \<Rightarrow> bool" where
  "is_roll (Roll type) = True"
| "is_roll _ = False"

text \<open>
  No call of \<open>roll\<close> in the trace is made from a render that shows \<open>rolling\<close>
  unset when the cell is set: React has rendered again since the call of
  \<open>roll\<close> that set it.
\<close>

fun rolls_current :: "event list \<Rightarrow> state \<Rightarrow> bool" where
  "rolls_current [] st = True"
| "rolls_current (e # es) st =
     ((is_roll e \<and> rolling st \<longrightarrow> r_rolling (view st)) \<and> rolls_current es (step e st))"

text \<open>The trace in which React renders again after every event.\<close>

fun with_renders :: "event list \<Rightarrow> event list" where
  "with_renders [] = []"
| "with_renders (e # es) = e # Render # with_renders es"

text \<open>The result cell that belongs to a \<open>type\<close>, the other one, and the bound.\<close>

definition result_of :: "string \<Rightarrow> state \<Rightarrow> jsnum option" where
  "result_of type st = (if type = ''table'' then table st else seat st)"

definition other_result_of :: "string \<Rightarrow> state \<Rightarrow> jsnum option" where
  "other_result_of type st = (if type = ''table'' then seat st else table st)"

definition bound_of :: "string \<Rightarrow> render \<Rightarrow> jsnum" where
  "bound_of type rd = (if type = ''table'' then r_tableMax rd else r_seatMax rd)"

text \<open>The bound that the callback of a closure samples against.\<close>

definition c_max :: "closure \<Rightarrow> jsnum" where
  "c_max c = (if ctype c = ''table'' then c_tableMax c else c_seatMax c)"

text \<open>The closure of the callback that \<open>roll\<close> of a render starts.\<close>

definition closure_of :: "render \<Rightarrow> string \<Rightarrow> closure" where
  "closure_of rd type =
     \<lparr>ctype = type, c_tableMax = r_tableMax rd, c_seatMax = r_seatMax rd,
      flashes = FLASH_COUNT\<rparr>"

text \<open>
  A draw is in progress: \<open>rolling\<close> is set and timer \<open>i\<close>, with closure \<open>c\<close>, is
  the one timer that runs.
\<close>

definition running :: "nat \<Rightarrow> closure \<Rightarrow> state \<Rightarrow> bool" where
  "running i c st = (rolling st \<and> timers st = [(i, c)] \<and> 0 < flashes c)"

text \<open>
  At most one draw: no timer and \<open>rolling\<close> unset, or one timer with a
  positive counter and \<open>rolling\<close> set.
\<close>

definition wf :: "state \<Rightarrow> bool" where
  "wf st =
    (case timers st of
       [] \<Rightarrow> \<not> rolling st
     | [p] \<Rightarrow> rolling st \<and> 0 < flashes (snd p)
     | _ \<Rightarrow> False)"

text \<open>Every identifier in use is below the next free one.\<close>

definition ids_below :: "state \<Rightarrow> bool" where
  "ids_below st = list_all (\<lambda>p. fst p < next_id st) (timers st)"

text \<open>A number that is not below 1: \<open>NaN\<close>, or at least 1.\<close>

definition not_below_one :: "jsnum \<Rightarrow> bool" where
  "not_below_one x = (x = NaN \<or> js_le (Fin 1) x)"

text \<open>No bound in a cell, in the attached render or in a closure is below 1.\<close>

definition bounds_kept :: "state \<Rightarrow> bool" where
  "bounds_kept st =
    (not_below_one (tableMax st) \<and> not_below_one (seatMax st)
     \<and> not_below_one (r_tableMax (view st)) \<and> not_below_one (r_seatMax (view st))
     \<and> list_all (\<lambda>p. not_below_one (c_tableMax (snd p))
                     \<and> not_below_one (c_seatMax (snd p))) (timers st))"

section \<open>The value of a tick\<close>

lemma draw_value_Fin: "draw_value r (Fin x) = Fin (of_int (\<lfloor>r * x\<rfloor> + 1))"
  by (simp add: draw_value_def)

lemma draw_value_NaN: "draw_value r NaN = NaN"
  by (simp add: draw_value_def)

lemma floor_sample_bounds:
  fixes r :: real and m :: int
  assumes "0 \<le> r" "r < 1" "1 \<le> m"
  shows "0 \<le> \<lfloor>r * of_int m\<rfloor>" and "\<lfloor>r * of_int m\<rfloor> < m"
proof -
  have pos: "(0::real) < of_int m" using assms(3) by simp
  have "0 \<le> r * of_int m" using assms(1) pos by simp
  then show "0 \<le> \<lfloor>r * of_int m\<rfloor>" by simp
  have "r * of_int m < 1 * of_int m" using assms(2) pos by (rule mult_strict_right_mono)
  then have "r * of_int m < of_int m" by simp
  then show "\<lfloor>r * of_int m\<rfloor> < m" by (simp add: floor_less_iff)
qed

lemma draw_value_in_range:
  assumes "0 \<le> r" "r < 1" "1 \<le> m"
  shows "in_range (draw_value r (Fin (of_int m))) (Fin (of_int m))"
    and "is_integer (draw_value r (Fin (of_int m)))"
proof -
  have a: "0 \<le> \<lfloor>r * of_int m\<rfloor>" and b: "\<lfloor>r * of_int m\<rfloor> < m"
    using floor_sample_bounds [OF assms] by simp_all
  have "(1::real) \<le> of_int (\<lfloor>r * of_int m\<rfloor> + 1)" using a by linarith
  moreover have "(of_int (\<lfloor>r * of_int m\<rfloor> + 1) :: real) \<le> of_int m" using b by linarith
  ultimately show "in_range (draw_value r (Fin (of_int m))) (Fin (of_int m))"
    unfolding in_range_def draw_value_Fin by simp
  show "is_integer (draw_value r (Fin (of_int m)))"
    unfolding draw_value_Fin by simp
qed

section \<open>One timer among the others\<close>

text \<open>
  The callback of a timer changes the closure of that timer only, and no other
  event changes it: a timer counts its own runs, whatever else runs beside it.
\<close>

lemma map_of_update_key:
  "map_of (map (\<lambda>p. if fst p = j then (j, g (snd p)) else p) xs) i
     = (if i = j then map_option g (map_of xs i) else map_of xs i)"
  by (induction xs) auto

lemma map_of_remove_key:
  "map_of (filter (\<lambda>p. fst p \<noteq> j) xs) i = (if i = j then None else map_of xs i)"
  by (induction xs) auto

lemma c_max_flashes [simp]: "c_max (c\<lparr>flashes := n\<rparr>) = c_max c"
  by (simp add: c_max_def)

lemma tick_result:
  assumes "map_of (timers st) i = Some c"
  shows "result_of (ctype c) (tick i r st) = Some (draw_value r (c_max c))"
    and "other_result_of (ctype c) (tick i r st) = other_result_of (ctype c) st"
  using assms
  by (simp_all add: tick_def result_of_def other_result_of_def c_max_def clearInterval_def
      Let_def)

lemma tick_no_timer: "map_of (timers st) i = None \<Longrightarrow> tick i r st = st"
  by (simp add: tick_def)

lemma tick_cont:
  assumes "map_of (timers st) i = Some c" "1 < flashes c"
  shows "map_of (timers (tick i r st)) i = Some (c\<lparr>flashes := flashes c - 1\<rparr>)"
    and "confetti (tick i r st) = confetti st"
    and "cleared (tick i r st) = cleared st"
    and "rolling (tick i r st) = rolling st"
  using assms
  by (simp_all add: tick_def Let_def map_of_update_key)

lemma tick_last:
  assumes "map_of (timers st) i = Some c" "flashes c = 1"
  shows "map_of (timers (tick i r st)) i = None"
    and "\<not> rolling (tick i r st)"
    and "confetti (tick i r st) = confetti st + 1"
    and "cleared (tick i r st) = cleared st @ [i]"
  using assms
  by (simp_all add: tick_def clearInterval_def Let_def map_of_remove_key)

lemma tick_other_timer:
  assumes "j \<noteq> i"
  shows "map_of (timers (tick j r st)) i = map_of (timers st) i"
  using assms
  by (simp add: tick_def clearInterval_def Let_def map_of_update_key map_of_remove_key
      split: option.splits)

lemma step_other_timer:
  assumes "map_of (timers st) i = Some c" "\<not> is_tick_of i e"
  shows "map_of (timers (step e st)) i = Some c"
proof (cases e)
  case (Tick j r)
  then have "j \<noteq> i" using assms(2) by simp
  then show ?thesis using Tick assms(1) by (simp add: tick_other_timer)
qed (use assms(1) in \<open>simp_all add: roll_def reset_def onChange_tableMax_def
      onChange_seatMax_def rerender_def\<close>)

lemma run_append: "run (es @ fs) st = run fs (run es st)"
  by (induction es arbitrary: st) simp_all

lemma count_ticks_Cons:
  "count_ticks i (e # es) = (if is_tick_of i e then Suc (count_ticks i es) else count_ticks i es)"
  by (simp add: count_ticks_def)

lemma count_ticks_replicate: "count_ticks i (replicate n (Tick i r)) = n"
  by (induction n) (simp_all add: count_ticks_def)

lemma is_tick_of_eq: "is_tick_of i e \<Longrightarrow> \<exists>r. e = Tick i r"
  by (cases e) simp_all

lemma run_timer:
  assumes "map_of (timers st) i = Some c" "int (count_ticks i es) < flashes c"
  shows "map_of (timers (run es st)) i
           = Some (c\<lparr>flashes := flashes c - int (count_ticks i es)\<rparr>)"
  using assms
proof (induction es arbitrary: c st)
  case Nil
  then show ?case by (simp add: count_ticks_def)
next
  case (Cons e es)
  show ?case
  proof (cases "is_tick_of i e")
    case True
    then obtain r where e: "e = Tick i r" using is_tick_of_eq by blast
    from Cons.prems(2) True have fl: "1 < flashes c"
      and rest: "int (count_ticks i es) < flashes c - 1"
      by (simp_all add: count_ticks_Cons)
    let ?c = "c\<lparr>flashes := flashes c - 1\<rparr>"
    have t: "map_of (timers (tick i r st)) i = Some ?c"
      by (rule tick_cont(1) [OF Cons.prems(1) fl])
    have "int (count_ticks i es) < flashes ?c" using rest by simp
    from Cons.IH [OF t this] show ?thesis using True e
      by (simp add: count_ticks_Cons diff_diff_eq)
  next
    case False
    have t: "map_of (timers (step e st)) i = Some c"
      by (rule step_other_timer [OF Cons.prems(1) False])
    have "int (count_ticks i es) < flashes c"
      using Cons.prems(2) False by (simp add: count_ticks_Cons)
    from Cons.IH [OF t this] show ?thesis using False by (simp add: count_ticks_Cons)
  qed
qed

section \<open>Identifiers\<close>

lemma ids_below_init: "ids_below init"
  by (simp add: ids_below_def init_def)

lemma ids_below_step: "ids_below st \<Longrightarrow> ids_below (step e st)"
proof (cases e)
  case (Roll type)
  assume "ids_below st"
  then have "list_all (\<lambda>p. fst p < Suc (next_id st)) (timers st)"
    by (auto simp: ids_below_def list_all_iff)
  then show ?thesis using Roll \<open>ids_below st\<close> by (simp add: ids_below_def roll_def)
next
  case (Tick i r)
  assume "ids_below st"
  then show ?thesis using Tick
    by (auto simp: ids_below_def tick_def clearInterval_def Let_def list_all_iff
        split: option.splits dest!: map_of_SomeD)
qed (simp_all add: ids_below_def reset_def onChange_tableMax_def onChange_seatMax_def
      rerender_def)

lemma ids_below_run: "ids_below st \<Longrightarrow> ids_below (run es st)"
  by (induction es arbitrary: st) (simp_all add: ids_below_step)

lemma ids_below_fresh: "ids_below st \<Longrightarrow> map_of (timers st) (next_id st) = None"
  by (auto simp: ids_below_def list_all_iff map_of_eq_None_iff)

lemma roll_starts_timer:
  assumes "ids_below st" "\<not> r_rolling (view st)"
  shows "map_of (timers (step (Roll type) st)) (next_id st) = Some (closure_of (view st) type)"
  using ids_below_fresh [OF assms(1)] assms(2)
  by (simp add: roll_def closure_of_def map_add_def)

section \<open>One draw at a time\<close>

text \<open>
  When no call of \<open>roll\<close> comes from a render that shows \<open>rolling\<close> unset
  after the cell has been set, at most one draw is in progress, and it is
  disturbed by nothing but its own callback. A trace in which React renders
  again after every event is such a trace.
\<close>

lemma wf_init: "wf init"
  by (simp add: wf_def init_def)

lemma wf_step:
  assumes "wf st" "is_roll e \<and> rolling st \<longrightarrow> r_rolling (view st)"
  shows "wf (step e st)"
  using assms
  by (cases e; auto simp: wf_def roll_def tick_def reset_def onChange_tableMax_def
      onChange_seatMax_def clearInterval_def rerender_def FLASH_COUNT_def Let_def
      split: list.splits if_splits)

lemma wf_run: "wf st \<Longrightarrow> rolls_current es st \<Longrightarrow> wf (run es st)"
  by (induction es arbitrary: st) (simp_all add: wf_step)

lemma wf_timers: "wf st \<Longrightarrow> length (timers st) \<le> 1 \<and> (rolling st \<longleftrightarrow> timers st \<noteq> [])"
  by (auto simp: wf_def split: list.splits)

lemma wf_idle: "wf st \<Longrightarrow> \<not> rolling st \<Longrightarrow> timers st = []"
  by (auto simp: wf_def split: list.splits)

lemma rolls_current_append:
  "rolls_current (es @ fs) st \<longleftrightarrow> rolls_current es st \<and> rolls_current fs (run es st)"
  by (induction es arbitrary: st) auto

lemma rolls_current_no_roll: "list_all (\<lambda>e. \<not> is_roll e) es \<Longrightarrow> rolls_current es st"
  by (induction es arbitrary: st) simp_all

lemma view_rerender: "view (step Render st) = render_of (step Render st)"
  by (simp add: rerender_def render_of_def)

lemma rolls_current_with_renders:
  "view st = render_of st \<Longrightarrow> rolls_current (with_renders es) st"
proof (induction es arbitrary: st)
  case Nil
  then show ?case by simp
next
  case (Cons e es)
  have "rolls_current (with_renders es) (step Render (step e st))"
    by (rule Cons.IH [OF view_rerender])
  then show ?case using Cons.prems by (simp add: render_of_def)
qed

lemma view_init: "view init = render_of init"
  by (simp add: init_def render_of_def)

lemma step_running_other:
  assumes "running i c st" "\<not> is_tick_of i e" "is_roll e \<and> rolling st \<longrightarrow> r_rolling (view st)"
  shows "running i c (step e st)"
    and "confetti (step e st) = confetti st"
    and "cleared (step e st) = cleared st"
  using assms
  by (cases e; simp add: running_def roll_def tick_def reset_def onChange_tableMax_def
      onChange_seatMax_def rerender_def)+

lemma step_running_other_result:
  assumes "running i c st" "\<not> is_tick_of i e" "is_roll e \<and> rolling st \<longrightarrow> r_rolling (view st)"
    "other_result_of (ctype c) st = None"
  shows "other_result_of (ctype c) (step e st) = None"
  using assms
  by (cases e; auto simp: running_def roll_def tick_def reset_def onChange_tableMax_def
      onChange_seatMax_def rerender_def other_result_of_def split: if_splits)

lemma running_timer: "running i c st \<Longrightarrow> map_of (timers st) i = Some c"
  by (simp add: running_def)

lemma tick_running_cont:
  assumes "running i c st" "1 < flashes c"
  shows "running i (c\<lparr>flashes := flashes c - 1\<rparr>) (tick i r st)"
  using assms by (simp add: running_def tick_def Let_def)

lemma run_running:
  assumes "running i c st" "int (count_ticks i es) < flashes c" "rolls_current es st"
  shows "running i (c\<lparr>flashes := flashes c - int (count_ticks i es)\<rparr>) (run es st)
    \<and> confetti (run es st) = confetti st
    \<and> cleared (run es st) = cleared st"
  using assms
proof (induction es arbitrary: c st)
  case Nil
  then show ?case by (simp add: count_ticks_def)
next
  case (Cons e es)
  from Cons.prems(3) have cur: "is_roll e \<and> rolling st \<longrightarrow> r_rolling (view st)"
    and rest_cur: "rolls_current es (step e st)" by simp_all
  show ?case
  proof (cases "is_tick_of i e")
    case True
    then obtain r where e: "e = Tick i r" using is_tick_of_eq by blast
    from Cons.prems(2) True have fl: "1 < flashes c"
      and rest: "int (count_ticks i es) < flashes c - 1"
      by (simp_all add: count_ticks_Cons)
    let ?c = "c\<lparr>flashes := flashes c - 1\<rparr>"
    have r1: "running i ?c (tick i r st)"
      by (rule tick_running_cont [OF Cons.prems(1) fl])
    have r2: "int (count_ticks i es) < flashes ?c" using rest by simp
    have r3: "rolls_current es (tick i r st)" using rest_cur e by simp
    from Cons.IH [OF r1 r2 r3]
      tick_cont(2,3) [OF running_timer [OF Cons.prems(1)] fl, of r]
    show ?thesis using True e
      by (simp add: count_ticks_Cons diff_diff_eq)
  next
    case False
    have r1: "running i c (step e st)"
      by (rule step_running_other(1) [OF Cons.prems(1) False cur])
    have r2: "int (count_ticks i es) < flashes c"
      using Cons.prems(2) False by (simp add: count_ticks_Cons)
    from Cons.IH [OF r1 r2 rest_cur] step_running_other(2,3) [OF Cons.prems(1) False cur]
    show ?thesis using False by (simp add: count_ticks_Cons)
  qed
qed

lemma run_running_other_result:
  assumes "running i c st" "int (count_ticks i es) < flashes c" "rolls_current es st"
    "other_result_of (ctype c) st = None"
  shows "other_result_of (ctype c) (run es st) = None"
  using assms
proof (induction es arbitrary: c st)
  case Nil
  then show ?case by simp
next
  case (Cons e es)
  from Cons.prems(3) have cur: "is_roll e \<and> rolling st \<longrightarrow> r_rolling (view st)"
    and rest_cur: "rolls_current es (step e st)" by simp_all
  show ?case
  proof (cases "is_tick_of i e")
    case True
    then obtain r where e: "e = Tick i r" using is_tick_of_eq by blast
    from Cons.prems(2) True have fl: "1 < flashes c"
      and rest: "int (count_ticks i es) < flashes c - 1"
      by (simp_all add: count_ticks_Cons)
    let ?c = "c\<lparr>flashes := flashes c - 1\<rparr>"
    have r1: "running i ?c (tick i r st)"
      by (rule tick_running_cont [OF Cons.prems(1) fl])
    have r2: "int (count_ticks i es) < flashes ?c" using rest by simp
    have r3: "rolls_current es (tick i r st)" using rest_cur e by simp
    have r4: "other_result_of (ctype ?c) (tick i r st) = None"
      using tick_result(2) [OF running_timer [OF Cons.prems(1)], of r] Cons.prems(4) by simp
    from Cons.IH [OF r1 r2 r3 r4] show ?thesis using e by simp
  next
    case False
    have r1: "running i c (step e st)"
      by (rule step_running_other(1) [OF Cons.prems(1) False cur])
    have r2: "int (count_ticks i es) < flashes c"
      using Cons.prems(2) False by (simp add: count_ticks_Cons)
    have r4: "other_result_of (ctype c) (step e st) = None"
      by (rule step_running_other_result [OF Cons.prems(1) False cur Cons.prems(4)])
    from Cons.IH [OF r1 r2 rest_cur r4] show ?thesis by simp
  qed
qed

lemma roll_idle_running:
  assumes "wf st" "\<not> rolling st" "\<not> r_rolling (view st)"
  shows "running (next_id st) (closure_of (view st) type) (step (Roll type) st)"
    and "confetti (step (Roll type) st) = confetti st"
    and "cleared (step (Roll type) st) = cleared st"
    and "other_result_of type (step (Roll type) st) = other_result_of type st"
  using wf_idle [OF assms(1,2)] assms(3)
  by (simp_all add: roll_def running_def closure_of_def FLASH_COUNT_def other_result_of_def)

section \<open>Bounds\<close>

lemma not_below_one_clamp: "not_below_one (math_max (Fin 1) y)"
  by (cases y) (simp_all add: not_below_one_def)

lemma math_max_one_ge: "js_le (Fin 1) (math_max (Fin 1) y) \<longleftrightarrow> y \<noteq> NaN"
  by (cases y) simp_all

lemma bounds_kept_init: "bounds_kept init"
  by (simp add: bounds_kept_def init_def not_below_one_def)

lemma bounds_kept_step: "bounds_kept st \<Longrightarrow> bounds_kept (step e st)"
proof (cases e)
  case (Tick i r)
  assume "bounds_kept st"
  then show ?thesis using Tick
    by (auto simp: bounds_kept_def tick_def clearInterval_def Let_def list_all_iff
        split: option.splits)
qed (simp_all add: bounds_kept_def roll_def reset_def onChange_tableMax_def
      onChange_seatMax_def rerender_def render_of_def not_below_one_clamp)

lemma bounds_kept_run: "bounds_kept st \<Longrightarrow> bounds_kept (run es st)"
  by (induction es arbitrary: st) (simp_all add: bounds_kept_step)

lemma bounds_kept_closure:
  assumes "bounds_kept st" "map_of (timers st) i = Some c"
  shows "not_below_one (c_max c)"
proof -
  have "(i, c) \<in> set (timers st)" by (rule map_of_SomeD [OF assms(2)])
  then show ?thesis using assms(1)
    by (auto simp: bounds_kept_def list_all_iff c_max_def)
qed

section \<open>A draw from its start\<close>

text \<open>
  A call of \<open>roll\<close> from a render that shows \<open>rolling\<close> unset starts a timer
  under a fresh identifier. Whatever events follow, as long as that timer has
  fired fewer than \<open>FLASH_COUNT\<close> times it is still set, and its next firing
  writes the result cell of its \<open>type\<close> from the bound that \<open>roll\<close> read.
\<close>

lemma ids_below_reach: "ids_below (run es init)"
  by (rule ids_below_run [OF ids_below_init])

lemma bounds_kept_reach: "bounds_kept (run es init)"
  by (rule bounds_kept_run [OF bounds_kept_init])

lemma closure_of_simps [simp]:
  "ctype (closure_of rd type) = type"
  "flashes (closure_of rd type) = FLASH_COUNT"
  "c_max (closure_of rd type) = bound_of type rd"
  by (simp_all add: closure_of_def c_max_def bound_of_def)

lemma started_timer:
  assumes "ids_below st" "\<not> r_rolling (view st)"
    "int (count_ticks (next_id st) es) < FLASH_COUNT"
  shows "map_of (timers (run es (step (Roll type) st))) (next_id st)
    = Some ((closure_of (view st) type)
              \<lparr>flashes := FLASH_COUNT - int (count_ticks (next_id st) es)\<rparr>)"
proof -
  have t: "map_of (timers (step (Roll type) st)) (next_id st)
      = Some (closure_of (view st) type)"
    by (rule roll_starts_timer [OF assms(1,2)])
  have "int (count_ticks (next_id st) es) < flashes (closure_of (view st) type)"
    using assms(3) by simp
  from run_timer [OF t this] show ?thesis by simp
qed

lemma draw_tick_value:
  assumes "ids_below st" "\<not> r_rolling (view st)"
    "int (count_ticks (next_id st) es) < FLASH_COUNT"
  shows "result_of type (run (es @ [Tick (next_id st) r]) (step (Roll type) st))
           = Some (draw_value r (bound_of type (view st)))"
proof -
  from tick_result(1) [OF started_timer [OF assms, where type = type], of r]
  show ?thesis by (simp add: run_append)
qed

lemma started_draw:
  assumes "wf st" "rolling st \<longrightarrow> r_rolling (view st)" "\<not> r_rolling (view st)"
    "rolls_current es (step (Roll type) st)"
    "int (count_ticks (next_id st) es) < FLASH_COUNT"
  shows "running (next_id st)
           ((closure_of (view st) type)
              \<lparr>flashes := FLASH_COUNT - int (count_ticks (next_id st) es)\<rparr>)
           (run es (step (Roll type) st))
    \<and> confetti (run es (step (Roll type) st)) = confetti st
    \<and> cleared (run es (step (Roll type) st)) = cleared st"
proof -
  have idle: "\<not> rolling st" using assms(2,3) by blast
  have r0: "running (next_id st) (closure_of (view st) type) (step (Roll type) st)"
    by (rule roll_idle_running(1) [OF assms(1) idle assms(3)])
  have "int (count_ticks (next_id st) es) < flashes (closure_of (view st) type)"
    using assms(5) by simp
  from run_running [OF r0 this assms(4)]
    roll_idle_running(2,3) [OF assms(1) idle assms(3), of type]
  show ?thesis by simp
qed

lemma draw_other_result:
  assumes "wf st" "rolling st \<longrightarrow> r_rolling (view st)" "\<not> r_rolling (view st)"
    "rolls_current es (step (Roll type) st)"
    "int (count_ticks (next_id st) es) < FLASH_COUNT"
    "other_result_of type st = None"
  shows "other_result_of type (run (es @ [Tick (next_id st) r]) (step (Roll type) st)) = None"
proof -
  have idle: "\<not> rolling st" using assms(2,3) by blast
  have r0: "running (next_id st) (closure_of (view st) type) (step (Roll type) st)"
    by (rule roll_idle_running(1) [OF assms(1) idle assms(3)])
  have lt: "int (count_ticks (next_id st) es) < flashes (closure_of (view st) type)"
    using assms(5) by simp
  have o0: "other_result_of (ctype (closure_of (view st) type)) (step (Roll type) st) = None"
    using assms(6) roll_idle_running(4) [OF assms(1) idle assms(3), of type] by simp
  have o1: "other_result_of type (run es (step (Roll type) st)) = None"
    using run_running_other_result [OF r0 lt assms(4) o0] by simp
  have s: "running (next_id st)
      ((closure_of (view st) type)\<lparr>flashes := FLASH_COUNT - int (count_ticks (next_id st) es)\<rparr>)
      (run es (step (Roll type) st))"
    using started_draw [OF assms(1-5)] by simp
  from tick_result(2) [OF running_timer [OF s], of r] o1
  show ?thesis by (simp add: run_append)
qed

lemma reach_current:
  assumes "rolls_current (es0 @ Roll type # es) init"
  shows "wf (run es0 init)"
    and "rolling (run es0 init) \<longrightarrow> r_rolling (view (run es0 init))"
    and "rolls_current es (step (Roll type) (run es0 init))"
proof -
  from assms have a: "rolls_current es0 init"
    and b: "rolls_current (Roll type # es) (run es0 init)"
    by (simp_all add: rolls_current_append)
  show "wf (run es0 init)" by (rule wf_run [OF wf_init a])
  show "rolling (run es0 init) \<longrightarrow> r_rolling (view (run es0 init))" using b by simp
  show "rolls_current es (step (Roll type) (run es0 init))" using b by simp
qed

lemma tick_running_last_timers:
  assumes "running i c st" "flashes c = 1"
  shows "timers (tick i r st) = []"
  using assms by (simp add: running_def tick_def clearInterval_def Let_def)

lemma rolls_current_ticks: "rolls_current (replicate n (Tick i r)) st"
  by (rule rolls_current_no_roll) (simp add: list_all_iff)

section \<open>Evaluation on concrete inputs\<close>

lemmas parse_defs = to_number_def trim_def ws_chars_def overflow_def parse_non_decimal_def
  parse_unsigned_def parse_unsigned_decimal_def parse_exponent_def parse_digits_def
  digits_val_def is_digit_def digit_of_def pow10_def js_neg_def Let_def

lemmas handler_defs = roll_def tick_def reset_def onChange_tableMax_def onChange_seatMax_def
  clearInterval_def draw_value_def init_def FLASH_COUNT_def rerender_def render_of_def

section \<open>The claims\<close>

text \<open>
  Claim C1, for integer bounds. Let a call of \<open>roll\<close> start a draw of either
  \<open>type\<close> in a state that the component reaches from its mount, and let the
  bound of that \<open>type\<close> that \<open>roll\<close> reads be an integer \<open>m\<close> that is at least
  1. Whatever happens during the draw, each run of the callback, from the first
  to the last, assigns to the result cell of that \<open>type\<close> an integer between 1
  and \<open>m\<close>.
\<close>

theorem drawn_value_in_range_of_integer_bound:
  assumes "st = run es0 init" and "\<not> r_rolling (view st)"
    and "bound_of type (view st) = Fin (of_int m)" and "1 \<le> m"
    and "int (count_ticks (next_id st) es) < FLASH_COUNT"
    and "0 \<le> r" and "r < 1"
  shows "\<exists>v. result_of type (run (es @ [Tick (next_id st) r]) (step (Roll type) st)) = Some v
           \<and> in_range v (Fin (of_int m)) \<and> is_integer v"
proof -
  have i: "ids_below st" using assms(1) ids_below_reach by simp
  have "result_of type (run (es @ [Tick (next_id st) r]) (step (Roll type) st))
          = Some (draw_value r (Fin (of_int m)))"
    using draw_tick_value [OF i assms(2,5), where r = r and type = type] assms(3) by simp
  then show ?thesis
    using draw_value_in_range [OF assms(6,7,4)] by blast
qed

theorem drawn_value_in_range_of_integer_bound_witness:
  "init = run [] init \<and> \<not> r_rolling (view init)
   \<and> bound_of ''table'' (view init) = Fin (of_int 30) \<and> (1::int) \<le> 30
   \<and> int (count_ticks (next_id init) [Reset, Tick (next_id init) (1/3)]) < FLASH_COUNT
   \<and> (0::real) \<le> 9/10 \<and> (9/10::real) < 1
   \<and> (\<exists>v. result_of ''table''
             (run ([Reset, Tick (next_id init) (1/3)] @ [Tick (next_id init) (9/10)])
                (step (Roll ''table'') init)) = Some v
           \<and> in_range v (Fin (of_int 30)) \<and> is_integer v)"
proof -
  have h1: "init = run [] init" by simp
  have h2: "\<not> r_rolling (view init)" by (simp add: init_def)
  have h3: "bound_of ''table'' (view init) = Fin (of_int 30)"
    by (simp add: bound_of_def init_def)
  have h4: "(1::int) \<le> 30" by simp
  have h5: "int (count_ticks (next_id init) [Reset, Tick (next_id init) (1/3)]) < FLASH_COUNT"
    by (simp add: count_ticks_def FLASH_COUNT_def)
  have h6: "(0::real) \<le> 9/10" and h7: "(9/10::real) < 1" by simp_all
  show ?thesis
    using h1 h2 h3 h4 h5 h6 h7
      drawn_value_in_range_of_integer_bound [OF h1 h2 h3 h4 h5 h6 h7]
    by blast
qed

text \<open>
  Claim C1 as stated, for every bound that is at least 1, fails on a bound
  that is not an integer: the input \<open>2.5\<close> is stored as the bound 2.5, and with
  \<open>Math.random()\<close> returning 0.9 the first tick of a table draw assigns
  \<open>Math.floor(2.25) + 1 = 3\<close>, which is above the bound.
\<close>

theorem fractional_bound_counterexample:
  "tableMax (run [SetTableMax ''2.5''] init) = Fin (5/2)
   \<and> js_le (Fin 1) (Fin (5/2))
   \<and> table (run [SetTableMax ''2.5'', Render, Roll ''table'', Tick 0 (9/10)] init)
       = Some (Fin 3)
   \<and> \<not> in_range (Fin 3) (Fin (5/2))"
  by (simp add: parse_defs handler_defs in_range_def)

text \<open>
  Claim C2, for calls from a render that is up to date. A call of \<open>roll\<close> from
  a render that shows \<open>rolling\<close> set returns the state as it is: \<open>table\<close>,
  \<open>seat\<close> and \<open>rolling\<close> are not altered and no timer is started. When no call
  of \<open>roll\<close> comes from a render that shows \<open>rolling\<close> unset after the cell has
  been set, then in every state that the component reaches from its mount at
  most one timer runs, and one runs exactly when \<open>rolling\<close> is set: a table
  draw and a seat draw never run together. This is so, in particular, when
  React renders again after every event.
\<close>

theorem roll_from_rolling_render_is_noop:
  "(r_rolling (view st) \<longrightarrow> step (Roll type) st = st)
   \<and> (rolls_current es init \<longrightarrow>
        length (timers (run es init)) \<le> 1
        \<and> (rolling (run es init) \<longleftrightarrow> timers (run es init) \<noteq> []))
   \<and> rolls_current (with_renders es) init
   \<and> length (timers (run (with_renders es) init)) \<le> 1
   \<and> (rolling (run (with_renders es) init) \<longleftrightarrow> timers (run (with_renders es) init) \<noteq> [])"
proof -
  have a: "r_rolling (view st) \<longrightarrow> step (Roll type) st = st" by (simp add: roll_def)
  have b: "length (timers (run es init)) \<le> 1
        \<and> (rolling (run es init) \<longleftrightarrow> timers (run es init) \<noteq> [])"
    if "rolls_current es init"
    by (rule wf_timers [OF wf_run [OF wf_init that]])
  have c: "rolls_current (with_renders es) init"
    by (rule rolls_current_with_renders [OF view_init])
  have d: "length (timers (run (with_renders es) init)) \<le> 1
        \<and> (rolling (run (with_renders es) init) \<longleftrightarrow> timers (run (with_renders es) init) \<noteq> [])"
    by (rule wf_timers [OF wf_run [OF wf_init c]])
  from a b c d show ?thesis by blast
qed

theorem roll_from_rolling_render_is_noop_witness:
  "r_rolling (view (run [Roll ''table'', Render] init))
   \<and> step (Roll ''seat'') (run [Roll ''table'', Render] init) = run [Roll ''table'', Render] init
   \<and> rolls_current [Roll ''table'', Render, Roll ''seat''] init
   \<and> length (timers (run [Roll ''table'', Render, Roll ''seat''] init)) \<le> 1"
proof -
  have r: "r_rolling (view (run [Roll ''table'', Render] init))"
    by (simp add: handler_defs)
  have c: "rolls_current [Roll ''table'', Render, Roll ''seat''] init"
    by (simp add: handler_defs)
  show ?thesis
    using r c roll_from_rolling_render_is_noop [where st = "run [Roll ''table'', Render] init"
        and type = "''seat''" and es = "[Roll ''table'', Render, Roll ''seat'']"]
    by blast
qed

text \<open>
  Claim C2 as stated, for every call made while \<open>rolling\<close> is set, fails for a
  call that comes before React has rendered again: after \<open>roll("table")\<close> the
  cell \<open>rolling\<close> is set, but the attached \<open>roll\<close> still reads the constant
  \<open>rolling\<close> of the render before, so \<open>roll("seat")\<close> passes the guard and
  starts a second timer. A table draw and a seat draw then run together.
\<close>

theorem second_roll_before_render_counterexample:
  "rolling (run [Roll ''table''] init)
   \<and> step (Roll ''seat'') (run [Roll ''table''] init) \<noteq> run [Roll ''table''] init
   \<and> length (timers (run [Roll ''table'', Roll ''seat''] init)) = 2
   \<and> map (\<lambda>p. ctype (snd p)) (timers (run [Roll ''table'', Roll ''seat''] init))
       = [''table'', ''seat'']"
proof -
  have a: "rolling (run [Roll ''table''] init)" by (simp add: handler_defs)
  have b: "length (timers (run [Roll ''table'', Roll ''seat''] init)) = 2"
    by (simp add: handler_defs)
  have c: "map (\<lambda>p. ctype (snd p)) (timers (run [Roll ''table'', Roll ''seat''] init))
       = [''table'', ''seat'']"
    by (simp add: handler_defs)
  have "next_id (step (Roll ''seat'') (run [Roll ''table''] init))
      \<noteq> next_id (run [Roll ''table''] init)"
    by (simp add: handler_defs)
  then have e: "step (Roll ''seat'') (run [Roll ''table''] init) \<noteq> run [Roll ''table''] init"
    by auto
  from a b c e show ?thesis by blast
qed

text \<open>
  Claim C3. Let a call of \<open>roll\<close> start a draw in a state that the component
  reaches from its mount. Whatever events follow, as long as the callback of
  the draw has run fewer than \<open>FLASH_COUNT\<close> = 50 times its timer is set, with
  the counter lowered by the number of runs; a run before the 50th calls
  neither \<open>clearInterval\<close> nor \<open>confetti\<close> and leaves \<open>rolling\<close> as it is; the
  50th run clears the timer, once, unsets \<open>rolling\<close> and calls \<open>confetti\<close>,
  once, and the timer being cleared, the callback does not run a 51st time.
  When moreover no call of \<open>roll\<close> comes from a render that is out of date,
  this timer is the only one: until the 50th run \<open>rolling\<close> stays set,
  \<open>confetti\<close> is not called at all and nothing is cleared, and after it no
  timer is left.
\<close>

theorem draw_runs_FLASH_COUNT_ticks:
  assumes "st = run es0 init" and "\<not> r_rolling (view st)"
    and "int (count_ticks (next_id st) es) < FLASH_COUNT"
  shows "map_of (timers (run es (step (Roll type) st))) (next_id st)
        = Some ((closure_of (view st) type)
                  \<lparr>flashes := FLASH_COUNT - int (count_ticks (next_id st) es)\<rparr>)
    \<and> (int (count_ticks (next_id st) es) < FLASH_COUNT - 1 \<longrightarrow>
         confetti (run (es @ [Tick (next_id st) r]) (step (Roll type) st))
           = confetti (run es (step (Roll type) st))
         \<and> cleared (run (es @ [Tick (next_id st) r]) (step (Roll type) st))
           = cleared (run es (step (Roll type) st))
         \<and> rolling (run (es @ [Tick (next_id st) r]) (step (Roll type) st))
           = rolling (run es (step (Roll type) st)))
    \<and> (int (count_ticks (next_id st) es) = FLASH_COUNT - 1 \<longrightarrow>
         \<not> rolling (run (es @ [Tick (next_id st) r]) (step (Roll type) st))
         \<and> map_of (timers (run (es @ [Tick (next_id st) r]) (step (Roll type) st)))
             (next_id st) = None
         \<and> confetti (run (es @ [Tick (next_id st) r]) (step (Roll type) st))
             = confetti (run es (step (Roll type) st)) + 1
         \<and> cleared (run (es @ [Tick (next_id st) r]) (step (Roll type) st))
             = cleared (run es (step (Roll type) st)) @ [next_id st]
         \<and> tick (next_id st) q (run (es @ [Tick (next_id st) r]) (step (Roll type) st))
             = run (es @ [Tick (next_id st) r]) (step (Roll type) st))
    \<and> (rolls_current (es0 @ Roll type # es) init \<longrightarrow>
         rolling (run es (step (Roll type) st))
         \<and> timers (run es (step (Roll type) st))
             = [(next_id st, (closure_of (view st) type)
                  \<lparr>flashes := FLASH_COUNT - int (count_ticks (next_id st) es)\<rparr>)]
         \<and> confetti (run es (step (Roll type) st)) = confetti st
         \<and> cleared (run es (step (Roll type) st)) = cleared st
         \<and> (int (count_ticks (next_id st) es) = FLASH_COUNT - 1 \<longrightarrow>
              timers (run (es @ [Tick (next_id st) r]) (step (Roll type) st)) = []
              \<and> confetti (run (es @ [Tick (next_id st) r]) (step (Roll type) st))
                  = confetti st + 1
              \<and> cleared (run (es @ [Tick (next_id st) r]) (step (Roll type) st))
                  = cleared st @ [next_id st]))"
proof -
  let ?i = "next_id st"
  let ?s = "run es (step (Roll type) st)"
  let ?c = "(closure_of (view st) type)\<lparr>flashes := FLASH_COUNT - int (count_ticks ?i es)\<rparr>"
  have after: "run (es @ [Tick ?i r]) (step (Roll type) st) = tick ?i r ?s"
    by (simp add: run_append)
  have ids: "ids_below st" using assms(1) ids_below_reach by simp
  have t: "map_of (timers ?s) ?i = Some ?c"
    by (rule started_timer [OF ids assms(2,3)])
  have mid: "confetti (tick ?i r ?s) = confetti ?s \<and> cleared (tick ?i r ?s) = cleared ?s
      \<and> rolling (tick ?i r ?s) = rolling ?s"
    if "int (count_ticks ?i es) < FLASH_COUNT - 1"
  proof -
    have "1 < flashes ?c" using that by simp
    from tick_cont(2-4) [OF t this, of r] show ?thesis by simp
  qed
  have last: "\<not> rolling (tick ?i r ?s) \<and> map_of (timers (tick ?i r ?s)) ?i = None
      \<and> confetti (tick ?i r ?s) = confetti ?s + 1
      \<and> cleared (tick ?i r ?s) = cleared ?s @ [?i]
      \<and> tick ?i q (tick ?i r ?s) = tick ?i r ?s"
    if "int (count_ticks ?i es) = FLASH_COUNT - 1"
  proof -
    have one: "flashes ?c = 1" using that by simp
    from tick_last [OF t one, of r] tick_no_timer [of "tick ?i r ?s" ?i q]
    show ?thesis by simp
  qed
  have sync: "rolling ?s \<and> timers ?s = [(?i, ?c)] \<and> confetti ?s = confetti st
      \<and> cleared ?s = cleared st
      \<and> (int (count_ticks ?i es) = FLASH_COUNT - 1 \<longrightarrow>
            timers (tick ?i r ?s) = [] \<and> confetti (tick ?i r ?s) = confetti st + 1
            \<and> cleared (tick ?i r ?s) = cleared st @ [?i])"
    if cur: "rolls_current (es0 @ Roll type # es) init"
  proof -
    have w: "wf st" and v: "rolling st \<longrightarrow> r_rolling (view st)"
      and rest: "rolls_current es (step (Roll type) st)"
      using reach_current [OF cur] assms(1) by simp_all
    have run: "running ?i ?c ?s" and c: "confetti ?s = confetti st"
      and d: "cleared ?s = cleared st"
      using started_draw [OF w v assms(2) rest assms(3)] by simp_all
    have e: "timers (tick ?i r ?s) = [] \<and> confetti (tick ?i r ?s) = confetti st + 1
            \<and> cleared (tick ?i r ?s) = cleared st @ [?i]"
      if n: "int (count_ticks ?i es) = FLASH_COUNT - 1"
    proof -
      have one: "flashes ?c = 1" using n by simp
      from tick_running_last_timers [OF run one, of r] tick_last(3,4) [OF t one, of r] c d
      show ?thesis by simp
    qed
    from run c d e show ?thesis by (simp add: running_def)
  qed
  from t mid last sync show ?thesis unfolding after by blast
qed

theorem draw_runs_FLASH_COUNT_ticks_witness:
  "init = run [] init \<and> \<not> r_rolling (view init)
   \<and> int (count_ticks (next_id init) (replicate 49 (Tick (next_id init) (1/2)))) = FLASH_COUNT - 1
   \<and> rolls_current ([] @ Roll ''table'' # replicate 49 (Tick (next_id init) (1/2))) init
   \<and> rolling (run (replicate 49 (Tick (next_id init) (1/2))) (step (Roll ''table'') init))
   \<and> confetti (run (replicate 49 (Tick (next_id init) (1/2))) (step (Roll ''table'') init))
       = confetti init
   \<and> \<not> rolling (run (replicate 49 (Tick (next_id init) (1/2)) @ [Tick (next_id init) (1/2)])
           (step (Roll ''table'') init))
   \<and> confetti (run (replicate 49 (Tick (next_id init) (1/2)) @ [Tick (next_id init) (1/2)])
           (step (Roll ''table'') init)) = confetti init + 1
   \<and> int (count_ticks (next_id init) []) < FLASH_COUNT - 1
   \<and> confetti (run ([] @ [Tick (next_id init) (1/2)]) (step (Roll ''table'') init))
       = confetti (run [] (step (Roll ''table'') init))"
proof -
  have h1: "init = run [] init" by simp
  have h2: "\<not> r_rolling (view init)" by (simp add: init_def)
  have h3: "int (count_ticks (next_id init) (replicate 49 (Tick (next_id init) (1/2))))
      = FLASH_COUNT - 1"
    by (simp add: count_ticks_replicate FLASH_COUNT_def)
  then have h4: "int (count_ticks (next_id init) (replicate 49 (Tick (next_id init) (1/2))))
      < FLASH_COUNT" by simp
  have h5: "rolls_current ([] @ Roll ''table'' # replicate 49 (Tick (next_id init) (1/2))) init"
    by (simp add: rolls_current_ticks init_def)
  have h6: "int (count_ticks (next_id init) []) < FLASH_COUNT - 1"
    by (simp add: count_ticks_def FLASH_COUNT_def)
  then have h7: "int (count_ticks (next_id init) []) < FLASH_COUNT" by simp
  show ?thesis
    using h1 h2 h3 h5 h6
      draw_runs_FLASH_COUNT_ticks [OF h1 h2 h4, where r = "1/2" and type = "''table''"]
      draw_runs_FLASH_COUNT_ticks [OF h1 h2 h7, where r = "1/2" and type = "''table''"]
    by blast
qed

text \<open>
  Claim C4. A change of a bound input stores \<open>Math.max(1, +value)\<close>: for every
  input whose coercion is a finite number \<open>x\<close> the stored bound is the maximum
  of 1 and \<open>x\<close>, and it is exactly 1 when \<open>x\<close> is 0 or negative.
\<close>

theorem onChange_clamps_bound:
  "tableMax (onChange_tableMax v st) = math_max (Fin 1) (to_number v)
   \<and> seatMax (onChange_seatMax v st) = math_max (Fin 1) (to_number v)
   \<and> (to_number v = Fin x \<longrightarrow>
        tableMax (onChange_tableMax v st) = Fin (max 1 x)
        \<and> seatMax (onChange_seatMax v st) = Fin (max 1 x))
   \<and> (to_number v = Fin x \<and> x \<le> 0 \<longrightarrow>
        tableMax (onChange_tableMax v st) = Fin 1
        \<and> seatMax (onChange_seatMax v st) = Fin 1)"
  by (simp add: onChange_tableMax_def onChange_seatMax_def max_def)

theorem onChange_clamps_bound_witness:
  "to_number ''-5'' = Fin (- 5) \<and> (- 5 :: real) \<le> 0
   \<and> tableMax (onChange_tableMax ''-5'' init) = Fin 1
   \<and> seatMax (onChange_seatMax ''-5'' init) = Fin 1
   \<and> tableMax (onChange_tableMax ''-5'' init) = Fin (max 1 (- 5))"
proof -
  have p: "to_number ''-5'' = Fin (- 5)" by (simp add: parse_defs)
  show ?thesis
    using p onChange_clamps_bound [of "''-5''" init "- 5"] by simp
qed

text \<open>
  Claim C5. Whatever the state, \<open>reset\<close> sets \<open>table\<close> and \<open>seat\<close> to \<open>null\<close>
  and leaves \<open>rolling\<close>, \<open>tableMax\<close> and \<open>seatMax\<close> (and the timers) as they
  were.
\<close>

theorem reset_clears_results_only:
  "table (reset st) = None \<and> seat (reset st) = None
   \<and> rolling (reset st) = rolling st
   \<and> tableMax (reset st) = tableMax st \<and> seatMax (reset st) = seatMax st
   \<and> view (reset st) = view st
   \<and> timers (reset st) = timers st \<and> next_id (reset st) = next_id st
   \<and> confetti (reset st) = confetti st \<and> cleared (reset st) = cleared st"
  by (simp add: reset_def)

text \<open>
  Claim C6. A run of the callback of a table draw assigns \<open>table\<close> and leaves
  \<open>seat\<close> as it was; a run of the callback of a seat draw assigns \<open>seat\<close> and
  leaves \<open>table\<close> as it was. In particular, when a table draw started on the
  mounted component completes, \<open>table\<close> holds the value of the last tick and
  \<open>rolling\<close> is unset, whatever other events came in between; and \<open>seat\<close> is
  still \<open>null\<close>, provided that no call of \<open>roll\<close> among them came from a render
  that was out of date (such a call can start a seat draw beside the table
  draw).
\<close>

theorem tick_writes_own_result_only:
  "(map_of (timers st) i = Some c \<and> ctype c = ''table'' \<longrightarrow>
      seat (tick i r st) = seat st \<and> table (tick i r st) = Some (draw_value r (c_tableMax c)))
   \<and> (map_of (timers st) i = Some c \<and> ctype c \<noteq> ''table'' \<longrightarrow>
      table (tick i r st) = table st \<and> seat (tick i r st) = Some (draw_value r (c_seatMax c)))
   \<and> (int (count_ticks (next_id init) es) = FLASH_COUNT - 1 \<longrightarrow>
      \<not> rolling (run (es @ [Tick (next_id init) q]) (step (Roll ''table'') init))
      \<and> table (run (es @ [Tick (next_id init) q]) (step (Roll ''table'') init))
          = Some (draw_value q (Fin 30)))
   \<and> (int (count_ticks (next_id init) es) = FLASH_COUNT - 1
        \<and> rolls_current (Roll ''table'' # es) init \<longrightarrow>
      seat (run (es @ [Tick (next_id init) q]) (step (Roll ''table'') init)) = None)"
proof -
  have a: "map_of (timers st) i = Some c \<and> ctype c = ''table'' \<longrightarrow>
      seat (tick i r st) = seat st \<and> table (tick i r st) = Some (draw_value r (c_tableMax c))"
    using tick_result [of st i c r]
    by (auto simp: result_of_def other_result_of_def c_max_def)
  have b: "map_of (timers st) i = Some c \<and> ctype c \<noteq> ''table'' \<longrightarrow>
      table (tick i r st) = table st \<and> seat (tick i r st) = Some (draw_value r (c_seatMax c))"
    using tick_result [of st i c r]
    by (auto simp: result_of_def other_result_of_def c_max_def)
  have v: "\<not> r_rolling (view init)" by (simp add: init_def)
  have b30: "bound_of ''table'' (view init) = Fin 30" by (simp add: bound_of_def init_def)
  have c: "\<not> rolling (run (es @ [Tick (next_id init) q]) (step (Roll ''table'') init))
      \<and> table (run (es @ [Tick (next_id init) q]) (step (Roll ''table'') init))
          = Some (draw_value q (Fin 30))"
    if n: "int (count_ticks (next_id init) es) = FLASH_COUNT - 1"
  proof -
    have lt: "int (count_ticks (next_id init) es) < FLASH_COUNT" using n by simp
    have h: "init = run [] init" by simp
    from draw_tick_value [OF ids_below_init v lt, where r = q and type = "''table''"] b30
    have 1: "table (run (es @ [Tick (next_id init) q]) (step (Roll ''table'') init))
          = Some (draw_value q (Fin 30))"
      by (simp add: result_of_def)
    have t: "map_of (timers (run es (step (Roll ''table'') init))) (next_id init)
      = Some ((closure_of (view init) ''table'')
              \<lparr>flashes := FLASH_COUNT - int (count_ticks (next_id init) es)\<rparr>)"
      by (rule started_timer [OF ids_below_init v lt])
    have "flashes ((closure_of (view init) ''table'')
              \<lparr>flashes := FLASH_COUNT - int (count_ticks (next_id init) es)\<rparr>) = 1"
      using n by simp
    from tick_last(2) [OF t this, of q]
    have 2: "\<not> rolling (run (es @ [Tick (next_id init) q]) (step (Roll ''table'') init))"
      by (simp add: run_append)
    from 1 2 show ?thesis by simp
  qed
  have d: "seat (run (es @ [Tick (next_id init) q]) (step (Roll ''table'') init)) = None"
    if n: "int (count_ticks (next_id init) es) = FLASH_COUNT - 1"
      and cur: "rolls_current (Roll ''table'' # es) init"
  proof -
    have lt: "int (count_ticks (next_id init) es) < FLASH_COUNT" using n by simp
    have o: "other_result_of ''table'' init = None" by (simp add: other_result_of_def init_def)
    have v0: "rolling init \<longrightarrow> r_rolling (view init)" by (simp add: init_def)
    have rest: "rolls_current es (step (Roll ''table'') init)" using cur by simp
    from draw_other_result [OF wf_init v0 v rest lt o, where r = q]
    show ?thesis by (simp add: other_result_of_def)
  qed
  from a b c d show ?thesis by blast
qed

theorem tick_writes_own_result_only_witness:
  "map_of (timers (step (Roll ''table'') init)) 0
     = Some \<lparr>ctype = ''table'', c_tableMax = Fin 30, c_seatMax = Fin 10, flashes = 50\<rparr>
   \<and> seat (tick 0 (1/2) (step (Roll ''table'') init)) = seat (step (Roll ''table'') init)
   \<and> map_of (timers (step (Roll ''seat'') init)) 0
     = Some \<lparr>ctype = ''seat'', c_tableMax = Fin 30, c_seatMax = Fin 10, flashes = 50\<rparr>
   \<and> ''seat'' \<noteq> ''table''
   \<and> table (tick 0 (1/2) (step (Roll ''seat'') init)) = table (step (Roll ''seat'') init)
   \<and> int (count_ticks (next_id init) (replicate 49 (Tick (next_id init) (1/2)))) = FLASH_COUNT - 1
   \<and> rolls_current (Roll ''table'' # replicate 49 (Tick (next_id init) (1/2))) init
   \<and> seat (run (replicate 49 (Tick (next_id init) (1/2)) @ [Tick (next_id init) (1/2)])
        (step (Roll ''table'') init)) = None
   \<and> \<not> rolling (run (replicate 49 (Tick (next_id init) (1/2)) @ [Tick (next_id init) (1/2)])
        (step (Roll ''table'') init))"
proof -
  let ?a = "\<lparr>ctype = ''table'', c_tableMax = Fin 30, c_seatMax = Fin 10, flashes = 50\<rparr>"
  let ?b = "\<lparr>ctype = ''seat'', c_tableMax = Fin 30, c_seatMax = Fin 10, flashes = 50\<rparr>"
  have h1: "map_of (timers (step (Roll ''table'') init)) 0 = Some ?a"
    by (simp add: handler_defs)
  have h2: "map_of (timers (step (Roll ''seat'') init)) 0 = Some ?b"
    by (simp add: handler_defs)
  have h3: "''seat'' \<noteq> ''table''" by simp
  have h4: "int (count_ticks (next_id init) (replicate 49 (Tick (next_id init) (1/2))))
      = FLASH_COUNT - 1"
    by (simp add: count_ticks_replicate FLASH_COUNT_def)
  have h5: "rolls_current (Roll ''table'' # replicate 49 (Tick (next_id init) (1/2))) init"
    by (simp add: rolls_current_ticks init_def)
  have t1: "ctype ?a = ''table''" by simp
  have t2: "ctype ?b \<noteq> ''table''" by simp
  show ?thesis
    using h1 h2 h3 h4 h5 t1 t2
      tick_writes_own_result_only [where st = "step (Roll ''table'') init" and i = 0
        and c = ?a and r = "1/2" and es = "replicate 49 (Tick (next_id init) (1/2))"
        and q = "1/2"]
      tick_writes_own_result_only [where st = "step (Roll ''seat'') init" and i = 0
        and c = ?b and r = "1/2" and es = "[]"]
    by blast
qed

text \<open>
  Claim C7, as the code has it. The callback samples against the bound of its
  closure as it is, with no clamp: it assigns \<open>Math.floor(r * max) + 1\<close> for
  that \<open>max\<close>. The value is an integer between 1 and \<open>max\<close> when \<open>max\<close> is an
  integer that is at least 1, and it is \<open>NaN\<close> when \<open>max\<close> is \<open>NaN\<close>. In every
  state that the component reaches from its mount, each bound in a cell and
  the bound that the callback of a running timer samples against is \<open>NaN\<close> or
  at least 1.
\<close>

theorem tick_uses_bound_unclamped:
  assumes "map_of (timers st) i = Some c" and "0 \<le> r" and "r < 1"
  shows "result_of (ctype c) (tick i r st) = Some (draw_value r (c_max c))
    \<and> (c_max c = Fin (of_int m) \<and> 1 \<le> m \<longrightarrow>
         in_range (draw_value r (c_max c)) (c_max c) \<and> is_integer (draw_value r (c_max c)))
    \<and> (c_max c = NaN \<longrightarrow> draw_value r (c_max c) = NaN)
    \<and> (st = run es init \<longrightarrow> not_below_one (c_max c))
    \<and> not_below_one (tableMax (run es init)) \<and> not_below_one (seatMax (run es init))"
proof -
  have a: "result_of (ctype c) (tick i r st) = Some (draw_value r (c_max c))"
    by (rule tick_result(1) [OF assms(1)])
  have b: "in_range (draw_value r (c_max c)) (c_max c) \<and> is_integer (draw_value r (c_max c))"
    if "c_max c = Fin (of_int m) \<and> 1 \<le> m"
    using that draw_value_in_range [OF assms(2,3), of m] by simp
  have c: "draw_value r (c_max c) = NaN" if "c_max c = NaN"
    using that by (simp add: draw_value_NaN)
  have d: "not_below_one (c_max c)" if "st = run es init"
    using bounds_kept_closure [OF bounds_kept_reach [of es]] assms(1) that by simp
  have e: "not_below_one (tableMax (run es init)) \<and> not_below_one (seatMax (run es init))"
    using bounds_kept_reach [of es] by (simp add: bounds_kept_def)
  from a b c d e show ?thesis by blast
qed

theorem tick_uses_bound_unclamped_witness:
  "map_of (timers (run [SetTableMax ''abc'', Render, Roll ''table''] init)) 0
     = Some \<lparr>ctype = ''table'', c_tableMax = NaN, c_seatMax = Fin 10, flashes = 50\<rparr>
   \<and> c_max \<lparr>ctype = ''table'', c_tableMax = NaN, c_seatMax = Fin 10, flashes = 50\<rparr> = NaN
   \<and> (0::real) \<le> 1/2 \<and> (1/2::real) < 1
   \<and> table (tick 0 (1/2) (run [SetTableMax ''abc'', Render, Roll ''table''] init)) = Some NaN
   \<and> not_below_one NaN
   \<and> map_of (timers (run [Roll ''seat''] init)) 0
     = Some \<lparr>ctype = ''seat'', c_tableMax = Fin 30, c_seatMax = Fin 10, flashes = 50\<rparr>
   \<and> c_max \<lparr>ctype = ''seat'', c_tableMax = Fin 30, c_seatMax = Fin 10, flashes = 50\<rparr>
     = Fin (of_int 10)
   \<and> (1::int) \<le> 10
   \<and> (\<exists>v. seat (tick 0 (1/2) (run [Roll ''seat''] init)) = Some v
         \<and> in_range v (Fin (of_int 10)) \<and> is_integer v)"
proof -
  let ?a = "\<lparr>ctype = ''table'', c_tableMax = NaN, c_seatMax = Fin 10, flashes = 50\<rparr>"
  let ?b = "\<lparr>ctype = ''seat'', c_tableMax = Fin 30, c_seatMax = Fin 10, flashes = 50\<rparr>"
  have a1: "map_of (timers (run [SetTableMax ''abc'', Render, Roll ''table''] init)) 0 = Some ?a"
    by (simp add: parse_defs handler_defs)
  have a2: "c_max ?a = NaN" by (simp add: c_max_def)
  have b1: "map_of (timers (run [Roll ''seat''] init)) 0 = Some ?b"
    by (simp add: handler_defs)
  have b2: "c_max ?b = Fin (of_int 10)" by (simp add: c_max_def)
  have r1: "(0::real) \<le> 1/2" and r2: "(1/2::real) < 1" by simp_all
  have x3: "(1::int) \<le> 10" by simp
  have ta: "result_of (ctype ?a) = table" by (simp add: result_of_def fun_eq_iff)
  have tb: "result_of (ctype ?b) = seat" by (simp add: result_of_def fun_eq_iff)
  from tick_uses_bound_unclamped [OF a1 r1 r2,
      where es = "[SetTableMax ''abc'', Render, Roll ''table'']"]
  have A: "table (tick 0 (1/2) (run [SetTableMax ''abc'', Render, Roll ''table''] init))
      = Some NaN \<and> not_below_one NaN"
    unfolding ta a2 by simp
  from tick_uses_bound_unclamped [OF b1 r1 r2, where m = 10]
  have B: "\<exists>v. seat (tick 0 (1/2) (run [Roll ''seat''] init)) = Some v
         \<and> in_range v (Fin (of_int 10)) \<and> is_integer v"
    using x3 unfolding tb b2 by blast
  from a1 a2 b1 b2 r1 r2 x3 A B show ?thesis by blast
qed

text \<open>
  Claim C7 as stated fails: the tick has no clamp, and its value is not always
  an integer within the bound. The input \<open>abc\<close> is stored as the bound \<open>NaN\<close>,
  and a tick of a table draw then assigns \<open>NaN\<close>; the input \<open>1.5\<close> is stored as
  the bound 1.5, and with \<open>Math.random()\<close> returning 0.9 a tick assigns
  \<open>Math.floor(1.35) + 1 = 2\<close>, which is above the bound.
\<close>

theorem unclamped_bound_counterexample:
  "tableMax (run [SetTableMax ''abc''] init) = NaN
   \<and> table (run [SetTableMax ''abc'', Render, Roll ''table'', Tick 0 (1/2)] init) = Some NaN
   \<and> \<not> is_integer NaN
   \<and> \<not> in_range NaN (math_max (Fin 1) NaN)
   \<and> tableMax (run [SetTableMax ''1.5''] init) = Fin (3/2)
   \<and> table (run [SetTableMax ''1.5'', Render, Roll ''table'', Tick 0 (9/10)] init)
       = Some (Fin 2)
   \<and> \<not> in_range (Fin 2) (math_max (Fin 1) (Fin (3/2)))"
  by (simp add: parse_defs handler_defs in_range_def)

text \<open>
  Claim C8. The empty string is coerced to 0, which \<open>Math.max(1, _)\<close> raises to
  1: after a change to the empty string the stored bound is exactly 1.
\<close>

theorem empty_input_stores_one:
  "to_number '''' = Fin 0
   \<and> math_max (Fin 1) (to_number '''') = Fin 1
   \<and> tableMax (onChange_tableMax '''' st) = Fin 1
   \<and> seatMax (onChange_seatMax '''' st) = Fin 1"
  by (simp add: onChange_tableMax_def onChange_seatMax_def parse_defs)

text \<open>
  Claim C9. After a change of a bound input the stored bound is at least 1
  exactly when the coercion of the input is not \<open>NaN\<close>; when it is \<open>NaN\<close>, the
  stored bound is \<open>NaN\<close>. The other bound is not touched.
\<close>

theorem onChange_bound_ge_one_iff_not_NaN:
  "(js_le (Fin 1) (tableMax (onChange_tableMax v st)) \<longleftrightarrow> to_number v \<noteq> NaN)
   \<and> (js_le (Fin 1) (seatMax (onChange_seatMax v st)) \<longleftrightarrow> to_number v \<noteq> NaN)
   \<and> (to_number v = NaN \<longrightarrow>
        tableMax (onChange_tableMax v st) = NaN \<and> seatMax (onChange_seatMax v st) = NaN)
   \<and> seatMax (onChange_tableMax v st) = seatMax st
   \<and> tableMax (onChange_seatMax v st) = tableMax st"
  by (simp add: onChange_tableMax_def onChange_seatMax_def math_max_one_ge)

theorem onChange_bound_ge_one_iff_not_NaN_witness:
  "to_number ''abc'' = NaN
   \<and> tableMax (onChange_tableMax ''abc'' init) = NaN
   \<and> seatMax (onChange_seatMax ''abc'' init) = NaN
   \<and> \<not> js_le (Fin 1) (tableMax (onChange_tableMax ''abc'' init))
   \<and> to_number ''7'' \<noteq> NaN
   \<and> js_le (Fin 1) (tableMax (onChange_tableMax ''7'' init))"
proof -
  have p: "to_number ''abc'' = NaN" by (simp add: parse_defs)
  have q: "to_number ''7'' \<noteq> NaN" by (simp add: parse_defs)
  show ?thesis
    using p q onChange_bound_ge_one_iff_not_NaN [of "''abc''" init]
      onChange_bound_ge_one_iff_not_NaN [of "''7''" init]
    by simp
qed

text \<open>
  Claim C10. Every run of the callback of a draw samples against the bound
  that \<open>roll\<close> read when the draw was started: whatever events come between
  the start and a run, changes of the bound inputs and renders among them, the
  value assigned is \<open>Math.floor(r * max) + 1\<close> for the \<open>max\<close> of the start. A
  change of a bound input does not touch the closure of a running timer.
\<close>

theorem tick_samples_captured_bound:
  assumes "st = run es0 init" and "\<not> r_rolling (view st)"
    and "int (count_ticks (next_id st) es) < FLASH_COUNT"
  shows "result_of type (run (es @ [Tick (next_id st) r]) (step (Roll type) st))
           = Some (draw_value r (bound_of type (view st)))
    \<and> timers (onChange_tableMax v s) = timers s
    \<and> timers (onChange_seatMax v s) = timers s"
proof -
  have i: "ids_below st" using assms(1) ids_below_reach by simp
  show ?thesis
    using draw_tick_value [OF i assms(2,3), where r = r and type = type]
    by (simp add: onChange_tableMax_def onChange_seatMax_def)
qed

theorem tick_samples_captured_bound_witness:
  "init = run [] init \<and> \<not> r_rolling (view init)
   \<and> int (count_ticks (next_id init) [SetTableMax ''5'', Render]) < FLASH_COUNT
   \<and> tableMax (run [SetTableMax ''5'', Render] (step (Roll ''table'') init)) = Fin 5
   \<and> bound_of ''table'' (view (run [SetTableMax ''5'', Render] (step (Roll ''table'') init)))
       = Fin 5
   \<and> bound_of ''table'' (view init) = Fin 30
   \<and> result_of ''table''
        (run ([SetTableMax ''5'', Render] @ [Tick (next_id init) (9/10)])
           (step (Roll ''table'') init))
       = Some (draw_value (9/10) (bound_of ''table'' (view init)))
   \<and> draw_value (9/10) (Fin 30) = Fin 28"
proof -
  have h1: "init = run [] init" by simp
  have h2: "\<not> r_rolling (view init)" by (simp add: init_def)
  have h3: "int (count_ticks (next_id init) [SetTableMax ''5'', Render]) < FLASH_COUNT"
    by (simp add: count_ticks_def FLASH_COUNT_def)
  have e1: "tableMax (run [SetTableMax ''5'', Render] (step (Roll ''table'') init)) = Fin 5"
    by (simp add: parse_defs handler_defs)
  have e2: "bound_of ''table''
      (view (run [SetTableMax ''5'', Render] (step (Roll ''table'') init))) = Fin 5"
    by (simp add: parse_defs handler_defs bound_of_def)
  have e3: "bound_of ''table'' (view init) = Fin 30" by (simp add: bound_of_def init_def)
  have e4: "draw_value (9/10) (Fin 30) = Fin 28" by (simp add: draw_value_def)
  show ?thesis
    using h1 h2 h3 e1 e2 e3 e4
      tick_samples_captured_bound [OF h1 h2 h3, where r = "9/10" and type = "''table''"]
    by blast
qed

end
